theory Spec2Isabelle
  imports Complex_Main "HOL-Library.AList"
begin

section \<open>The pool scheduler of vm_manager.py\<close>

text \<open>
  A shallow embedding of \<^verbatim>\<open>VMPoolManager\<close> (src/vm_manager.py). The manager's mutable
  attributes become a record that every method takes and returns; the two remote clients
  (\<^verbatim>\<open>ProxmoxManager\<close>, \<^verbatim>\<open>GuacamoleManager\<close>) and the clock become a record of replies
  that each operation receives; an exception is a value of \<open>py_error\<close>.
\<close>

subsection \<open>Data\<close>

datatype VMStatus = CREATING | RUNNING | STOPPED | ERROR

text \<open>The dataclass \<^verbatim>\<open>VMInfo\<close>; the field \<^verbatim>\<open>id\<close> is written \<open>id'\<close>.\<close>

record VMInfo =
  id' :: int
  name :: string
  ip :: string
  status :: VMStatus
  guacamole_connection_id :: "string option"
  created_at :: "real option"
  user_count :: int
  last_health_check :: "real option"

text \<open>
  The exceptions of the scheduler: a missing dict key, an address beyond the IPv4 range,
  \<^verbatim>\<open>raise Exception(msg)\<close>, and whatever a remote client raised.
\<close>

datatype py_error = KeyError int | AddressValueError | Exception string | RemoteError

text \<open>What a call to a remote client does: it returns a value or raises.\<close>

datatype 'a reply = Returns 'a | Raises

text \<open>An entry of \<^verbatim>\<open>list_vms()\<close>: \<^verbatim>\<open>vm['vmid']\<close> and \<^verbatim>\<open>vm.get('status')\<close>.\<close>

record vm_entry =
  vmid :: int
  entry_status :: "string option"

text \<open>
  The replies of the collaborators during one operation. \<open>get_vm_status v n\<close> is the
  \<^verbatim>\<open>status.get('status')\<close> of the \<open>n\<close>-th status query about instance \<open>v\<close> within the
  operation, \<open>time v\<close> the value of \<^verbatim>\<open>time.time()\<close> read while instance \<open>v\<close> is handled.
\<close>

record remote =
  clone_vm :: "int \<Rightarrow> bool reply"
  get_vm_status :: "int \<Rightarrow> nat \<Rightarrow> string option reply"
  create_connection :: "string \<Rightarrow> string \<Rightarrow> string option reply"
  list_vms :: "vm_entry list reply"
  time :: "int \<Rightarrow> real"

text \<open>
  The configuration options the scheduler reads, all of them present. The subnet and the
  base address are held as \<^verbatim>\<open>ipaddress\<close> parses them: an IPv4 address is its 32-bit
  value, a network is its network address (no host bit set) and its prefix length.
\<close>

record config =
  subnet_address :: nat
  subnet_prefixlen :: nat
  base_ip :: nat
  template_vm_id :: int
  base_load :: int
  users_per_vm :: int
  max_vms :: int
  vm_ready_timeout :: int

text \<open>
  The attributes of \<^verbatim>\<open>VMPoolManager\<close>. \<open>vm_pool\<close> is the dict in insertion order,
  every record under its own id; \<open>available_vms\<close> is the set, listed in the order in
  which a \<^verbatim>\<open>for\<close> loop visits it (Python leaves that order to the implementation).
\<close>

record pool_state =
  vm_pool :: "(int \<times> VMInfo) list"
  available_vms :: "int list"
  next_vm_id :: int
  ip_pool :: "string list"

subsection \<open>Strings of numbers and addresses\<close>

definition digit_char :: "nat \<Rightarrow> char" where
  "digit_char d = ''0123456789'' ! d"

fun str_nat :: "nat \<Rightarrow> string" where
  "str_nat n = (if n < 10 then [digit_char n] else str_nat (n div 10) @ [digit_char (n mod 10)])"

declare str_nat.simps [simp del]

definition str_int :: "int \<Rightarrow> string" where
  "str_int i = (if i < 0 then CHR ''-'' # str_nat (nat (- i)) else str_nat (nat i))"

text \<open>\<^verbatim>\<open>str(IPv4Address(a))\<close>: the dotted quad.\<close>

definition ipv4_str :: "nat \<Rightarrow> string" where
  "ipv4_str a =
     str_nat (a div 16777216 mod 256) @ ''.'' @ str_nat (a div 65536 mod 256) @ ''.'' @
     str_nat (a div 256 mod 256) @ ''.'' @ str_nat (a mod 256)"

text \<open>\<^verbatim>\<open>current_ip in network\<close>: between the network address and the broadcast address.\<close>

definition broadcast_address :: "config \<Rightarrow> nat" where
  "broadcast_address cfg = subnet_address cfg + 2 ^ (32 - subnet_prefixlen cfg) - 1"

definition in_network :: "config \<Rightarrow> nat \<Rightarrow> bool" where
  "in_network cfg a \<longleftrightarrow> subnet_address cfg \<le> a \<and> a \<le> broadcast_address cfg"

subsection \<open>The IP allocator\<close>

text \<open>
  \<^verbatim>\<open>_initialize_ip_pool\<close>: at most \<^verbatim>\<open>max_vms\<close> rounds; a round appends the current address
  and steps to the next one, or breaks when the address has left the subnet.
  \<^verbatim>\<open>current_ip += 1\<close> raises \<^verbatim>\<open>AddressValueError\<close> beyond 255.255.255.255.
\<close>

fun ip_pool_loop :: "config \<Rightarrow> nat \<Rightarrow> nat \<Rightarrow> string list \<Rightarrow> py_error + string list" where
  "ip_pool_loop cfg 0 current_ip ips = Inr ips"
| "ip_pool_loop cfg (Suc n) current_ip ips =
     (if in_network cfg current_ip
      then (if current_ip + 1 > 4294967295 then Inl AddressValueError
            else ip_pool_loop cfg n (current_ip + 1) (ips @ [ipv4_str current_ip]))
      else Inr ips)"

definition initialize_ip_pool :: "config \<Rightarrow> py_error + string list" where
  "initialize_ip_pool cfg = ip_pool_loop cfg (nat (max_vms cfg)) (base_ip cfg) []"

definition get_next_ip :: "pool_state \<Rightarrow> string option \<times> pool_state" where
  "get_next_ip s =
     (case ip_pool s of
        [] \<Rightarrow> (None, s)
      | a # rest \<Rightarrow> (Some a, s\<lparr>ip_pool := rest\<rparr>))"

definition release_ip :: "string \<Rightarrow> pool_state \<Rightarrow> pool_state" where
  "release_ip a s = (if a \<notin> set (ip_pool s) then s\<lparr>ip_pool := ip_pool s @ [a]\<rparr> else s)"

text \<open>\<^verbatim>\<open>VMPoolManager.__init__\<close>: empty pool, ids from 100, the computed address pool.\<close>

definition init :: "config \<Rightarrow> py_error + pool_state" where
  "init cfg =
     (case initialize_ip_pool cfg of
        Inl e \<Rightarrow> Inl e
      | Inr ips \<Rightarrow> Inr \<lparr>vm_pool = [], available_vms = [], next_vm_id = 100, ip_pool = ips\<rparr>)"

subsection \<open>The available set\<close>

text \<open>
  \<^verbatim>\<open>add\<close> and \<^verbatim>\<open>discard\<close> of the set. A new id goes to the end of the list; the order
  in which CPython visits the set is the order of its hash table instead (it visits
  \<^verbatim>\<open>{103, 104}\<close> as 104, 103). \<open>reorder_available\<close> puts the same ids in another order:
  a run may do so at any point, so that the runs cover every order in which the code's
  loop can visit the set.
\<close>

definition add_available :: "int \<Rightarrow> pool_state \<Rightarrow> pool_state" where
  "add_available v s =
     (if v \<in> set (available_vms s) then s else s\<lparr>available_vms := available_vms s @ [v]\<rparr>)"

definition discard_available :: "int \<Rightarrow> pool_state \<Rightarrow> pool_state" where
  "discard_available v s = s\<lparr>available_vms := removeAll v (available_vms s)\<rparr>"

definition reorder_available :: "int list \<Rightarrow> pool_state \<Rightarrow> pool_state" where
  "reorder_available xs s =
     (if set xs = set (available_vms s) \<and> distinct xs then s\<lparr>available_vms := xs\<rparr> else s)"

subsection \<open>Startup registration and provisioning\<close>

definition register_existing_vm :: "remote \<Rightarrow> int \<Rightarrow> pool_state \<Rightarrow> pool_state" where
  "register_existing_vm env vm_id s =
     (case get_vm_status env vm_id 0 of
        Raises \<Rightarrow> s
      | Returns st \<Rightarrow>
          if st = Some ''running'' then
            let vm_info = \<lparr>id' = vm_id, name = ''existing-vm-'' @ str_int vm_id,
                  ip = ''192.168.1.'' @ str_int vm_id, status = RUNNING,
                  guacamole_connection_id = None, created_at = Some (time env vm_id),
                  user_count = 0, last_health_check = None\<rparr>
            in add_available vm_id (s\<lparr>vm_pool := AList.update vm_id vm_info (vm_pool s)\<rparr>)
          else s)"

text \<open>
  \<^verbatim>\<open>_wait_for_vm_ready\<close>: \<^verbatim>\<open>vm_ready_timeout // 5\<close> polls; a poll that raises counts
  as not ready; no poll left raises the timeout.
\<close>

fun wait_loop :: "remote \<Rightarrow> int \<Rightarrow> nat \<Rightarrow> nat \<Rightarrow> py_error + unit" where
  "wait_loop env vm_id attempt 0 =
     Inl (Exception (''VM '' @ str_int vm_id @ '' failed to become ready within timeout''))"
| "wait_loop env vm_id attempt (Suc n) =
     (case get_vm_status env vm_id attempt of
        Returns st \<Rightarrow>
          if st = Some ''running'' then Inr () else wait_loop env vm_id (Suc attempt) n
      | Raises \<Rightarrow> wait_loop env vm_id (Suc attempt) n)"

definition wait_for_vm_ready :: "config \<Rightarrow> remote \<Rightarrow> int \<Rightarrow> py_error + unit" where
  "wait_for_vm_ready cfg env vm_id = wait_loop env vm_id 0 (nat (vm_ready_timeout cfg div 5))"

text \<open>
  The remote steps inside the \<^verbatim>\<open>try\<close> of \<^verbatim>\<open>create_vm\<close>: clone, wait, display connection.
  The result is the connection id, or the exception that reaches the \<^verbatim>\<open>except\<close>.
\<close>

definition provision :: "config \<Rightarrow> remote \<Rightarrow> int \<Rightarrow> string \<Rightarrow> string \<Rightarrow> py_error + string" where
  "provision cfg env vm_id vm_name a =
     (case clone_vm env vm_id of
        Raises \<Rightarrow> Inl RemoteError
      | Returns success \<Rightarrow>
          if \<not> success then Inl (Exception ''VM creation failed'')
          else
            (case wait_for_vm_ready cfg env vm_id of
               Inl e \<Rightarrow> Inl e
             | Inr _ \<Rightarrow>
                 (case create_connection env vm_name a of
                    Raises \<Rightarrow> Inl RemoteError
                  | Returns None \<Rightarrow> Inl (Exception ''Guacamole connection creation failed'')
                  | Returns (Some connection_id) \<Rightarrow>
                      if connection_id = [] then
                        Inl (Exception ''Guacamole connection creation failed'')
                      else Inr connection_id)))"

definition create_vm :: "config \<Rightarrow> remote \<Rightarrow> pool_state \<Rightarrow> VMInfo option \<times> pool_state" where
  "create_vm cfg env s =
     (if int (length (vm_pool s)) \<ge> max_vms cfg then (None, s)
      else
        let vm_id = next_vm_id s;
            s1 = s\<lparr>next_vm_id := next_vm_id s + 1\<rparr>;
            vm_name = ''dynamic-vm-'' @ str_int vm_id
        in (case get_next_ip s1 of
              (None, s2) \<Rightarrow> (None, s2)
            | (Some a, s2) \<Rightarrow>
                if a = [] then (None, s2)
                else
                  let vm_info = \<lparr>id' = vm_id, name = vm_name, ip = a, status = CREATING,
                        guacamole_connection_id = None, created_at = Some (time env vm_id),
                        user_count = 0, last_health_check = None\<rparr>;
                      s3 = s2\<lparr>vm_pool := AList.update vm_id vm_info (vm_pool s2)\<rparr>
                  in (case provision cfg env vm_id vm_name a of
                        Inr connection_id \<Rightarrow>
                          let vm_info' = vm_info\<lparr>guacamole_connection_id := Some connection_id,
                                status := RUNNING\<rparr>;
                              s4 = s3\<lparr>vm_pool := AList.update vm_id vm_info' (vm_pool s3)\<rparr>
                          in (Some vm_info', add_available vm_id s4)
                      | Inl e \<Rightarrow>
                          let s4 = s3\<lparr>vm_pool :=
                                AList.update vm_id (vm_info\<lparr>status := ERROR\<rparr>) (vm_pool s3)\<rparr>;
                              s5 = release_ip a s4
                          in (None, s5\<lparr>vm_pool := AList.delete vm_id (vm_pool s5)\<rparr>))))"

fun create_times :: "config \<Rightarrow> remote \<Rightarrow> nat \<Rightarrow> pool_state \<Rightarrow> pool_state" where
  "create_times cfg env 0 s = s"
| "create_times cfg env (Suc n) s = create_times cfg env n (snd (create_vm cfg env s))"

text \<open>
  \<^verbatim>\<open>ensure_base_load\<close>: register the running instances other than the template, then
  call \<^verbatim>\<open>create_vm\<close> once for every \<^verbatim>\<open>i\<close> in \<^verbatim>\<open>range(len(self.vm_pool), base_load)\<close>.
\<close>

definition ensure_base_load :: "config \<Rightarrow> remote \<Rightarrow> pool_state \<Rightarrow> pool_state" where
  "ensure_base_load cfg env s =
     (case list_vms env of
        Raises \<Rightarrow> s
      | Returns current_vms \<Rightarrow>
          let running_vms = filter (\<lambda>vm. entry_status vm = Some ''running'') current_vms;
              s1 = fold (\<lambda>vm t. if vmid vm \<noteq> template_vm_id cfg
                                 then register_existing_vm env (vmid vm) t else t)
                     running_vms s
          in create_times cfg env (nat (base_load cfg - int (length (vm_pool s1)))) s1)"

subsection \<open>Assignment and release\<close>

text \<open>
  The selection loop of \<^verbatim>\<open>assign_vm_to_user\<close>. \<open>min_users\<close> is \<open>None\<close> while it is
  \<^verbatim>\<open>float('inf')\<close>. \<^verbatim>\<open>self.vm_pool[vm_id]\<close> raises \<^verbatim>\<open>KeyError\<close> for an id without record.
\<close>

definition below :: "int \<Rightarrow> int option \<Rightarrow> bool" where
  "below c min_users = (case min_users of None \<Rightarrow> True | Some m \<Rightarrow> c < m)"

fun find_best ::
  "config \<Rightarrow> (int \<times> VMInfo) list \<Rightarrow> int list \<Rightarrow> VMInfo option \<Rightarrow> int option \<Rightarrow>
     py_error + VMInfo option"
where
  "find_best cfg pool [] best_vm min_users = Inr best_vm"
| "find_best cfg pool (vm_id # rest) best_vm min_users =
     (case map_of pool vm_id of
        None \<Rightarrow> Inl (KeyError vm_id)
      | Some vm_info \<Rightarrow>
          if status vm_info = RUNNING \<and> below (user_count vm_info) min_users \<and>
             user_count vm_info < users_per_vm cfg
          then find_best cfg pool rest (Some vm_info) (Some (user_count vm_info))
          else find_best cfg pool rest best_vm min_users)"

text \<open>The tail of \<^verbatim>\<open>assign_vm_to_user\<close>, from \<^verbatim>\<open>best_vm.user_count += 1\<close> on.\<close>

definition take_seat :: "config \<Rightarrow> VMInfo \<Rightarrow> pool_state \<Rightarrow> VMInfo option \<times> pool_state" where
  "take_seat cfg best_vm s =
     (let best_vm' = best_vm\<lparr>user_count := user_count best_vm + 1\<rparr>;
          s1 = s\<lparr>vm_pool := AList.update (id' best_vm') best_vm' (vm_pool s)\<rparr>
      in (Some best_vm',
          if user_count best_vm' \<ge> users_per_vm cfg then discard_available (id' best_vm') s1
          else s1))"

definition assign_vm_to_user ::
  "config \<Rightarrow> remote \<Rightarrow> pool_state \<Rightarrow> py_error + (VMInfo option \<times> pool_state)"
where
  "assign_vm_to_user cfg env s =
     (case find_best cfg (vm_pool s) (available_vms s) None None of
        Inl e \<Rightarrow> Inl e
      | Inr (Some best_vm) \<Rightarrow> Inr (take_seat cfg best_vm s)
      | Inr None \<Rightarrow>
          (case create_vm cfg env s of
             (None, s1) \<Rightarrow> Inr (None, s1)
           | (Some best_vm, s1) \<Rightarrow> Inr (take_seat cfg best_vm s1)))"

text \<open>
  \<^verbatim>\<open>release_vm_from_user\<close>: nothing happens for an id without record or a record without
  users; otherwise the occupancy goes down by one and, inside the same branch, the id is
  added to the available set when the new occupancy is below \<^verbatim>\<open>users_per_vm\<close>.
\<close>

definition release_vm_from_user :: "config \<Rightarrow> int \<Rightarrow> pool_state \<Rightarrow> pool_state" where
  "release_vm_from_user cfg vm_id s =
     (case map_of (vm_pool s) vm_id of
        None \<Rightarrow> s
      | Some vm_info \<Rightarrow>
          if user_count vm_info > 0 then
            let vm_info1 = vm_info\<lparr>user_count := user_count vm_info - 1\<rparr>;
                s1 = s\<lparr>vm_pool := AList.update vm_id vm_info1 (vm_pool s)\<rparr>
            in if user_count vm_info1 < users_per_vm cfg then add_available vm_id s1 else s1
          else s)"

subsection \<open>Health and scaling\<close>

text \<open>One round of the loop of \<^verbatim>\<open>_check_vm_health\<close>; the record is changed in place.\<close>

definition check_one :: "remote \<Rightarrow> int \<Rightarrow> pool_state \<Rightarrow> pool_state" where
  "check_one env vm_id s =
     (case get_vm_status env vm_id 0 of
        Raises \<Rightarrow> s
      | Returns st \<Rightarrow>
          if st \<noteq> Some ''running'' then
            discard_available vm_id
              (s\<lparr>vm_pool := AList.map_entry vm_id (\<lambda>r. r\<lparr>status := STOPPED\<rparr>) (vm_pool s)\<rparr>)
          else
            s\<lparr>vm_pool := AList.map_entry vm_id
                 (\<lambda>r. r\<lparr>status := RUNNING, last_health_check := Some (time env vm_id)\<rparr>)
                 (vm_pool s)\<rparr>)"

definition check_vm_health :: "remote \<Rightarrow> pool_state \<Rightarrow> pool_state" where
  "check_vm_health env s = fold (check_one env) (map fst (vm_pool s)) s"

definition scale_pool_based_on_load :: "config \<Rightarrow> remote \<Rightarrow> pool_state \<Rightarrow> pool_state" where
  "scale_pool_based_on_load cfg env s =
     (let available_capacity = int (length (available_vms s)) * users_per_vm cfg
      in if available_capacity < 2 \<and> int (length (vm_pool s)) < max_vms cfg
         then snd (create_vm cfg env s) else s)"

subsection \<open>Runs\<close>

text \<open>
  The operations that change the pool once the manager is up. An assignment that raises
  leaves the state as it was: the \<^verbatim>\<open>KeyError\<close> comes from the selection loop, before any
  write. \<open>Reorder\<close> is no call of the manager: it is the freedom of the Python set to be
  visited in any order.
\<close>

datatype pool_op =
  Assign remote | Release int | Health remote | Scale remote | Create remote | Reorder "int list"

fun apply_op :: "config \<Rightarrow> pool_op \<Rightarrow> pool_state \<Rightarrow> pool_state" where
  "apply_op cfg (Assign env) s =
     (case assign_vm_to_user cfg env s of Inl e \<Rightarrow> s | Inr (r, s') \<Rightarrow> s')"
| "apply_op cfg (Release vm_id) s = release_vm_from_user cfg vm_id s"
| "apply_op cfg (Health env) s = check_vm_health env s"
| "apply_op cfg (Scale env) s = scale_pool_based_on_load cfg env s"
| "apply_op cfg (Create env) s = snd (create_vm cfg env s)"
| "apply_op cfg (Reorder xs) s = reorder_available xs s"

definition run :: "config \<Rightarrow> pool_op list \<Rightarrow> pool_state \<Rightarrow> pool_state" where
  "run cfg ops s = fold (apply_op cfg) ops s"

subsection \<open>Properties of a state\<close>

text \<open>Every record's occupancy lies between 0 and the capacity of an instance.\<close>

definition count_ok :: "config \<Rightarrow> pool_state \<Rightarrow> bool" where
  "count_ok cfg s \<longleftrightarrow>
     list_all (\<lambda>(k, r). 0 \<le> user_count r \<and> user_count r \<le> users_per_vm cfg) (vm_pool s)"

text \<open>
  Every record sits under its own id. Python holds the records by reference; the model
  holds them by value, and the two agree on states of this kind, the only ones the
  manager builds.
\<close>

definition pool_keyed :: "pool_state \<Rightarrow> bool" where
  "pool_keyed s \<longleftrightarrow> list_all (\<lambda>(k, r). id' r = k) (vm_pool s)"


definition eligible :: "config \<Rightarrow> pool_state \<Rightarrow> int \<Rightarrow> bool" where
  "eligible cfg s k \<longleftrightarrow>
     k \<in> set (available_vms s) \<and>
     (case map_of (vm_pool s) k of
        None \<Rightarrow> False
      | Some r \<Rightarrow> status r = RUNNING \<and> user_count r < users_per_vm cfg)"

definition occupancy :: "pool_state \<Rightarrow> int \<Rightarrow> int" where
  "occupancy s k = (case map_of (vm_pool s) k of None \<Rightarrow> 0 | Some r \<Rightarrow> user_count r)"

text \<open>What one round of the health pass does to the record of instance \<open>k\<close>.\<close>

definition health_update :: "remote \<Rightarrow> int \<Rightarrow> VMInfo \<Rightarrow> VMInfo" where
  "health_update env k r =
     (case get_vm_status env k 0 of
        Raises \<Rightarrow> r
      | Returns st \<Rightarrow>
          if st \<noteq> Some ''running'' then r\<lparr>status := STOPPED\<rparr>
          else r\<lparr>status := RUNNING, last_health_check := Some (time env k)\<rparr>)"

subsection \<open>A configuration and collaborators to run the model on\<close>

text \<open>
  Subnet 10.0.0.0/24, base address 10.0.0.10, \<^verbatim>\<open>max_vms = 3\<close>, \<^verbatim>\<open>users_per_vm = 2\<close>,
  \<^verbatim>\<open>base_load = 1\<close>.
\<close>

definition lab_config :: config where
  "lab_config = \<lparr>subnet_address = 167772160, subnet_prefixlen = 24, base_ip = 167772170,
     template_vm_id = 9000, base_load = 1, users_per_vm = 2, max_vms = 3,
     vm_ready_timeout = 300\<rparr>"

text \<open>Collaborators whose every call succeeds; no instance exists before startup.\<close>

definition ok_remote :: remote where
  "ok_remote = \<lparr>clone_vm = (\<lambda>v. Returns True),
     get_vm_status = (\<lambda>v n. Returns (Some ''running'')),
     create_connection = (\<lambda>n a. Returns (Some (''conn-'' @ n))),
     list_vms = Returns [], time = (\<lambda>v. 0)\<rparr>"

text \<open>The clone call reports failure.\<close>

definition clone_fails :: remote where
  "clone_fails = ok_remote\<lparr>clone_vm := (\<lambda>v. Returns False)\<rparr>"

text \<open>Instance 100 is reported stopped, every other instance running.\<close>

definition vm100_down :: remote where
  "vm100_down = ok_remote\<lparr>get_vm_status :=
     (\<lambda>v n. if v = 100 then Returns (Some ''stopped'') else Returns (Some ''running'')),
     time := (\<lambda>v. 5)\<rparr>"

text \<open>The state of a new manager for \<open>lab_config\<close>, and a record as \<^verbatim>\<open>create_vm\<close> leaves it.\<close>

definition fresh_pool :: pool_state where
  "fresh_pool = \<lparr>vm_pool = [], available_vms = [], next_vm_id = 100,
     ip_pool = [''10.0.0.10'', ''10.0.0.11'', ''10.0.0.12'']\<rparr>"

definition dynamic_vm :: "int \<Rightarrow> string \<Rightarrow> string \<Rightarrow> int \<Rightarrow> VMInfo" where
  "dynamic_vm i n a c = \<lparr>id' = i, name = ''dynamic-vm-'' @ n, ip = a, status = RUNNING,
     guacamole_connection_id = Some (''conn-dynamic-vm-'' @ n), created_at = Some 0,
     user_count = c, last_health_check = None\<rparr>"

definition base_pool :: pool_state where
  "base_pool = \<lparr>vm_pool = [(100, dynamic_vm 100 ''100'' ''10.0.0.10'' 0)],
     available_vms = [100], next_vm_id = 101, ip_pool = [''10.0.0.11'', ''10.0.0.12'']\<rparr>"

text \<open>The same configuration with base address 10.0.0.255, the last one of the subnet.\<close>

definition last_address_config :: config where
  "last_address_config = lab_config\<lparr>base_ip := 167772415\<rparr>"

definition last_address_pool :: pool_state where
  "last_address_pool = \<lparr>vm_pool = [(100, dynamic_vm 100 ''100'' ''10.0.0.255'' 0)],
     available_vms = [100], next_vm_id = 101, ip_pool = []\<rparr>"

text \<open>Five assignments after startup, and the pool with every seat taken.\<close>

definition five_assigned :: pool_state where
  "five_assigned = run lab_config
     [Assign ok_remote, Assign ok_remote, Assign ok_remote, Assign ok_remote, Assign ok_remote]
     base_pool"

definition full_pool :: pool_state where
  "full_pool = \<lparr>vm_pool = [(100, dynamic_vm 100 ''100'' ''10.0.0.10'' 2),
       (101, dynamic_vm 101 ''101'' ''10.0.0.11'' 2),
       (102, dynamic_vm 102 ''102'' ''10.0.0.12'' 2)],
     available_vms = [], next_vm_id = 103, ip_pool = []\<rparr>"

text \<open>Four instances are already running when the manager starts.\<close>

definition crowded_remote :: remote where
  "crowded_remote = ok_remote\<lparr>list_vms := Returns
     [\<lparr>vmid = 201, entry_status = Some ''running''\<rparr>,
      \<lparr>vmid = 202, entry_status = Some ''running''\<rparr>,
      \<lparr>vmid = 203, entry_status = Some ''running''\<rparr>,
      \<lparr>vmid = 204, entry_status = Some ''running''\<rparr>]\<rparr>"




text \<open>The state after startup and three assignments.\<close>

definition two_vm_pool :: pool_state where
  "two_vm_pool = \<lparr>vm_pool = [(100, dynamic_vm 100 ''100'' ''10.0.0.10'' 2),
       (101, dynamic_vm 101 ''101'' ''10.0.0.11'' 1)],
     available_vms = [101], next_vm_id = 102, ip_pool = [''10.0.0.12'']\<rparr>"

section \<open>Evaluation\<close>

lemma ip_pool_loop_numeral:
  "ip_pool_loop cfg (numeral k) c ips =
     (if in_network cfg c
      then (if c + 1 > 4294967295 then Inl AddressValueError
            else ip_pool_loop cfg (pred_numeral k) (c + 1) (ips @ [ipv4_str c]))
      else Inr ips)"
  by (simp add: numeral_eq_Suc)

lemma wait_loop_numeral:
  "wait_loop env v a (numeral k) =
     (case get_vm_status env v a of
        Returns st \<Rightarrow>
          if st = Some ''running'' then Inr () else wait_loop env v (Suc a) (pred_numeral k)
      | Raises \<Rightarrow> wait_loop env v (Suc a) (pred_numeral k))"
  by (simp add: numeral_eq_Suc)

lemma create_times_numeral:
  "create_times cfg env (numeral k) s =
     create_times cfg env (pred_numeral k) (snd (create_vm cfg env s))"
  by (simp add: numeral_eq_Suc)

lemma str_nat_numeral:
  "str_nat (numeral k) =
     (if numeral k < (10::nat) then [digit_char (numeral k)]
      else str_nat (numeral k div 10) @ [digit_char (numeral k mod 10)])"
  "str_nat 0 = ''0''" "str_nat 1 = ''1''" "str_nat (Suc 0) = ''1''"
  by (simp_all add: str_nat.simps[of "numeral k"] str_nat.simps[of 0] str_nat.simps[of 1]
      str_nat.simps[of "Suc 0"] digit_char_def)

lemmas evals =
  ip_pool_loop_numeral wait_loop_numeral create_times_numeral
  in_network_def broadcast_address_def ipv4_str_def str_nat_numeral digit_char_def str_int_def
  init_def initialize_ip_pool_def get_next_ip_def release_ip_def add_available_def
  discard_available_def register_existing_vm_def wait_for_vm_ready_def provision_def
  create_vm_def ensure_base_load_def below_def take_seat_def assign_vm_to_user_def
  release_vm_from_user_def check_one_def check_vm_health_def scale_pool_based_on_load_def
  run_def Let_def

lemmas lab =
  lab_config_def ok_remote_def clone_fails_def vm100_down_def fresh_pool_def dynamic_vm_def
  base_pool_def last_address_config_def last_address_pool_def full_pool_def
  crowded_remote_def

lemma init_lab: "init lab_config = Inr fresh_pool"
  by (simp add: evals lab)

lemma startup_lab: "ensure_base_load lab_config ok_remote fresh_pool = base_pool"
  by (simp add: evals lab)

section \<open>The IP allocator\<close>

lemma ip_pool_loop_walk:
  "ip_pool_loop cfg n c ips = Inr res \<Longrightarrow>
     \<exists>k\<le>n. res = ips @ map ipv4_str [c ..< c + k] \<and>
       (\<forall>a. c \<le> a \<and> a < c + k \<longrightarrow> in_network cfg a) \<and>
       (k = n \<or> \<not> in_network cfg (c + k))"
proof (induction n arbitrary: c ips)
  case 0
  then show ?case by auto
next
  case (Suc n)
  show ?case
  proof (cases "in_network cfg c")
    case False
    with Suc.prems have "res = ips" by simp
    with False show ?thesis by (intro exI[of _ 0]) auto
  next
    case True
    with Suc.prems have rec: "ip_pool_loop cfg n (c + 1) (ips @ [ipv4_str c]) = Inr res"
      by (simp split: if_splits)
    from Suc.IH[OF rec] obtain k where k: "k \<le> n"
      "res = (ips @ [ipv4_str c]) @ map ipv4_str [c + 1 ..< c + 1 + k]"
      "\<forall>a. c + 1 \<le> a \<and> a < c + 1 + k \<longrightarrow> in_network cfg a"
      "k = n \<or> \<not> in_network cfg (c + 1 + k)" by blast
    have "[c ..< c + Suc k] = c # [c + 1 ..< c + 1 + k]"
      by (simp add: upt_conv_Cons del: upt_Suc)
    then have "res = ips @ map ipv4_str [c ..< c + Suc k]"
      using k(2) by (simp del: upt_Suc)
    moreover have "\<forall>a. c \<le> a \<and> a < c + Suc k \<longrightarrow> in_network cfg a"
    proof (intro allI impI)
      fix a assume a: "c \<le> a \<and> a < c + Suc k"
      show "in_network cfg a"
      proof (cases "a = c")
        case True with \<open>in_network cfg c\<close> show ?thesis by simp
      next
        case False with a k(3) show ?thesis by simp
      qed
    qed
    moreover have "Suc k = Suc n \<or> \<not> in_network cfg (c + Suc k)" using k(4) by simp
    ultimately show ?thesis using k(1) by (intro exI[of _ "Suc k"]) simp
  qed
qed

lemma ip_pool_loop_returns:
  "broadcast_address cfg < 4294967295 \<Longrightarrow> \<exists>res. ip_pool_loop cfg n c ips = Inr res"
  by (induction n arbitrary: c ips) (auto simp: in_network_def)

lemma get_next_ip_distinct: "distinct (ip_pool s) \<Longrightarrow> distinct (ip_pool (snd (get_next_ip s)))"
  by (auto simp: get_next_ip_def split: list.splits)

lemma sorted_hd_Min:
  fixes xs :: "nat list"
  shows "sorted xs \<Longrightarrow> xs \<noteq> [] \<Longrightarrow> hd xs = Min (set xs)"
  by (cases xs) (auto intro!: Min_eqI[symmetric])

lemma ip_pool_add_available [simp]: "ip_pool (add_available v s) = ip_pool s"
  by (simp add: add_available_def)

lemma ip_pool_discard_available [simp]: "ip_pool (discard_available v s) = ip_pool s"
  by (simp add: discard_available_def)

lemma ip_pool_reorder_available [simp]: "ip_pool (reorder_available xs s) = ip_pool s"
  by (simp add: reorder_available_def)

lemma create_vm_distinct_ips:
  "distinct (ip_pool s) \<Longrightarrow> distinct (ip_pool (snd (create_vm cfg env s)))"
  by (auto simp: create_vm_def get_next_ip_def release_ip_def Let_def
      split: list.splits sum.splits)

lemma take_seat_ip_pool: "take_seat cfg b s = (r, s') \<Longrightarrow> ip_pool s' = ip_pool s"
  by (auto simp: take_seat_def Let_def split: if_splits)

lemma assign_distinct_ips:
  "distinct (ip_pool s) \<Longrightarrow> assign_vm_to_user cfg env s = Inr (r, s') \<Longrightarrow> distinct (ip_pool s')"
  using create_vm_distinct_ips[of s cfg env]
  by (auto simp: assign_vm_to_user_def dest!: take_seat_ip_pool
      split: sum.splits option.splits prod.splits)

lemma release_vm_ip_pool [simp]: "ip_pool (release_vm_from_user cfg v s) = ip_pool s"
  by (simp add: release_vm_from_user_def Let_def split: option.splits)

lemma check_one_ip_pool [simp]: "ip_pool (check_one env v s) = ip_pool s"
  by (simp add: check_one_def split: reply.splits)

lemma check_vm_health_ip_pool [simp]: "ip_pool (check_vm_health env s) = ip_pool s"
proof -
  have "ip_pool (fold (check_one env) ks s) = ip_pool s" for ks
    by (induction ks arbitrary: s) simp_all
  then show ?thesis by (simp add: check_vm_health_def)
qed

lemma apply_op_distinct_ips:
  "distinct (ip_pool s) \<Longrightarrow> distinct (ip_pool (apply_op cfg op s))"
proof (cases op)
  case (Assign env)
  assume "distinct (ip_pool s)"
  then show ?thesis using Assign assign_distinct_ips[of s cfg env]
    by (auto split: sum.splits)
next
  case (Scale env)
  assume "distinct (ip_pool s)"
  then show ?thesis using Scale create_vm_distinct_ips[of s cfg env]
    by (simp add: scale_pool_based_on_load_def Let_def)
qed (simp_all add: create_vm_distinct_ips)

lemma run_distinct_ips: "distinct (ip_pool s) \<Longrightarrow> distinct (ip_pool (run cfg ops s))"
  unfolding run_def by (induction ops arbitrary: s) (simp_all add: apply_op_distinct_ips)

text \<open>
  Claim C10. Releasing an address that is already in the free list changes nothing, so
  a second release of the same address adds no second entry; a free list without
  duplicates stays without duplicates under \<^verbatim>\<open>release_ip\<close>, under \<^verbatim>\<open>get_next_ip\<close> and in
  every run of the pool's operations.
\<close>

theorem release_ip_idempotent:
  "(a \<in> set (ip_pool s) \<longrightarrow> release_ip a s = s) \<and>
   release_ip a (release_ip a s) = release_ip a s \<and>
   (distinct (ip_pool s) \<longrightarrow>
      distinct (ip_pool (release_ip a s)) \<and> distinct (ip_pool (snd (get_next_ip s))) \<and>
      distinct (ip_pool (run cfg ops s)))"
  by (simp add: release_ip_def get_next_ip_distinct run_distinct_ips)

theorem release_ip_idempotent_witness:
  "''10.0.0.11'' \<in> set (ip_pool base_pool) \<and> distinct (ip_pool base_pool) \<and>
   release_ip ''10.0.0.11'' base_pool = base_pool \<and>
   distinct (ip_pool (run lab_config [Create clone_fails, Assign ok_remote] base_pool))"
proof -
  have h: "''10.0.0.11'' \<in> set (ip_pool base_pool)" "distinct (ip_pool base_pool)"
    by (simp_all add: base_pool_def)
  show ?thesis
    using h release_ip_idempotent
      [of "''10.0.0.11''" base_pool lab_config "[Create clone_fails, Assign ok_remote]"]
    by simp
qed

text \<open>
  Claim C9, as the code has it. The pool computed at startup is the run of addresses
  \<open>base_ip, base_ip + 1, \<dots>\<close> cut after \<^verbatim>\<open>max_vms\<close> addresses or at the first address
  outside the subnet, whichever comes first (and it is computed whenever the subnet ends
  below 255.255.255.255). \<^verbatim>\<open>get_next_ip\<close> returns \<open>None\<close> exactly on the empty list;
  otherwise it removes and returns the first address of the list. That is the lowest
  free address as long as the list is in ascending order; \<^verbatim>\<open>release_ip\<close> appends at the
  end, so after a release the first address need not be the lowest.
\<close>

theorem ip_allocator_first_free:
  "(initialize_ip_pool cfg = Inr ips \<longrightarrow>
      (\<exists>k\<le>nat (max_vms cfg).
         ips = map ipv4_str [base_ip cfg ..< base_ip cfg + k] \<and>
         (\<forall>a. base_ip cfg \<le> a \<and> a < base_ip cfg + k \<longrightarrow> in_network cfg a) \<and>
         (k = nat (max_vms cfg) \<or> \<not> in_network cfg (base_ip cfg + k)))) \<and>
   (broadcast_address cfg < 4294967295 \<longrightarrow> (\<exists>ips'. initialize_ip_pool cfg = Inr ips')) \<and>
   (fst (get_next_ip s) = None \<longleftrightarrow> ip_pool s = []) \<and>
   (ip_pool s = a # rest \<longrightarrow> get_next_ip s = (Some a, s\<lparr>ip_pool := rest\<rparr>)) \<and>
   (ip_pool s = map ipv4_str addrs \<and> sorted addrs \<and> addrs \<noteq> [] \<longrightarrow>
      fst (get_next_ip s) = Some (ipv4_str (Min (set addrs))))"
proof (intro conjI impI)
  assume "initialize_ip_pool cfg = Inr ips"
  then show "\<exists>k\<le>nat (max_vms cfg).
         ips = map ipv4_str [base_ip cfg ..< base_ip cfg + k] \<and>
         (\<forall>a. base_ip cfg \<le> a \<and> a < base_ip cfg + k \<longrightarrow> in_network cfg a) \<and>
         (k = nat (max_vms cfg) \<or> \<not> in_network cfg (base_ip cfg + k))"
    using ip_pool_loop_walk[of cfg "nat (max_vms cfg)" "base_ip cfg" "[]" ips]
    by (simp add: initialize_ip_pool_def)
next
  assume "broadcast_address cfg < 4294967295"
  then show "\<exists>ips'. initialize_ip_pool cfg = Inr ips'"
    by (simp add: initialize_ip_pool_def ip_pool_loop_returns)
next
  show "fst (get_next_ip s) = None \<longleftrightarrow> ip_pool s = []"
    by (simp add: get_next_ip_def split: list.splits)
next
  assume "ip_pool s = a # rest"
  then show "get_next_ip s = (Some a, s\<lparr>ip_pool := rest\<rparr>)"
    by (simp add: get_next_ip_def)
next
  assume h: "ip_pool s = map ipv4_str addrs \<and> sorted addrs \<and> addrs \<noteq> []"
  then obtain x xs where "addrs = x # xs" by (cases addrs) auto
  with h have "fst (get_next_ip s) = Some (ipv4_str (hd addrs))"
    by (simp add: get_next_ip_def)
  with h show "fst (get_next_ip s) = Some (ipv4_str (Min (set addrs)))"
    by (simp add: sorted_hd_Min)
qed

theorem ip_allocator_first_free_witness:
  "initialize_ip_pool lab_config = Inr (ip_pool fresh_pool) \<and>
   broadcast_address lab_config < 4294967295 \<and>
   ip_pool fresh_pool = ''10.0.0.10'' # [''10.0.0.11'', ''10.0.0.12''] \<and>
   ip_pool fresh_pool = map ipv4_str [167772170, 167772171, 167772172] \<and>
   sorted [167772170, 167772171, 167772172 :: nat] \<and>
   get_next_ip fresh_pool = (Some ''10.0.0.10'', fresh_pool\<lparr>ip_pool := [''10.0.0.11'', ''10.0.0.12'']\<rparr>) \<and>
   fst (get_next_ip fresh_pool) = Some (ipv4_str (Min (set [167772170, 167772171, 167772172])))"
proof -
  have h: "initialize_ip_pool lab_config = Inr (ip_pool fresh_pool)"
    "broadcast_address lab_config < 4294967295"
    "ip_pool fresh_pool = ''10.0.0.10'' # [''10.0.0.11'', ''10.0.0.12'']"
    "ip_pool fresh_pool = map ipv4_str [167772170, 167772171, 167772172]"
    "sorted [167772170, 167772171, 167772172 :: nat]"
    by (simp_all add: evals lab)
  show ?thesis
    using h ip_allocator_first_free [of lab_config "ip_pool fresh_pool" fresh_pool
        "''10.0.0.10''" "[''10.0.0.11'', ''10.0.0.12'']" "[167772170, 167772171, 167772172]"]
    by simp
qed

text \<open>
  The claim as stated fails: after one failed provisioning in \<open>lab_config\<close> the free list
  is 10.0.0.11, 10.0.0.12, 10.0.0.10, and \<^verbatim>\<open>get_next_ip\<close> hands out 10.0.0.11 while the
  lower 10.0.0.10 is free.
\<close>

theorem get_next_ip_lowest_counterexample:
  "ip_pool (snd (create_vm lab_config clone_fails fresh_pool)) =
     [ipv4_str 167772171, ipv4_str 167772172, ipv4_str 167772170] \<and>
   fst (get_next_ip (snd (create_vm lab_config clone_fails fresh_pool))) =
     Some (ipv4_str 167772171) \<and>
   ipv4_str 167772171 \<noteq> ipv4_str 167772170 \<and> (167772170 :: nat) < 167772171"
  by (simp add: evals lab)

section \<open>Provisioning\<close>

lemma wait_loop_ready_iff:
  "wait_loop env v a n = Inr () \<longleftrightarrow>
     (\<exists>i<n. get_vm_status env v (a + i) = Returns (Some ''running''))"
proof (induction n arbitrary: a)
  case 0
  show ?case by simp
next
  case (Suc n)
  have split: "(\<exists>i<Suc n. P i) \<longleftrightarrow> P 0 \<or> (\<exists>i<n. P (Suc i))" for P
    by (metis less_Suc_eq_0_disj)
  show ?case
    by (simp add: Suc.IH split split: reply.splits)
qed

lemma wait_loop_cases:
  "wait_loop env v a n = Inr () \<or> (\<exists>e. wait_loop env v a n = Inl e)"
  by (cases "wait_loop env v a n") auto

lemma provision_fails_iff:
  "(\<exists>e. provision cfg env v n a = Inl e) \<longleftrightarrow>
     clone_vm env v \<noteq> Returns True \<or>
     \<not> (\<exists>i<nat (vm_ready_timeout cfg div 5). get_vm_status env v i = Returns (Some ''running'')) \<or>
     (\<forall>c. c \<noteq> [] \<longrightarrow> create_connection env n a \<noteq> Returns (Some c))"
proof -
  have w: "(\<exists>i<nat (vm_ready_timeout cfg div 5). get_vm_status env v i = Returns (Some ''running''))
      \<longleftrightarrow> wait_for_vm_ready cfg env v = Inr ()"
    using wait_loop_ready_iff[of env v 0] by (simp add: wait_for_vm_ready_def)
  show ?thesis
    unfolding w
    by (auto simp: provision_def split: reply.splits sum.splits option.splits)
qed

lemma create_vm_on_failure:
  assumes "int (length (vm_pool s)) < max_vms cfg" and "ip_pool s = a # rest" and "a \<noteq> []"
    and "provision cfg env (next_vm_id s) (''dynamic-vm-'' @ str_int (next_vm_id s)) a = Inl e"
  shows "create_vm cfg env s =
     (None, s\<lparr>next_vm_id := next_vm_id s + 1,
               ip_pool := (if a \<in> set rest then rest else rest @ [a]),
               vm_pool := AList.delete (next_vm_id s) (vm_pool s)\<rparr>)"
  using assms
  by (simp add: create_vm_def get_next_ip_def release_ip_def Let_def AList.delete_update_same)

text \<open>
  Claim C4. When \<^verbatim>\<open>create_vm\<close> has inserted its record (the store is below \<^verbatim>\<open>max_vms\<close> and
  the allocator hands out an address) and a remote step fails (the clone call does not
  return \<^verbatim>\<open>True\<close>, or no poll within the timeout reports the instance running, or no
  display connection id comes back), then \<^verbatim>\<open>create_vm\<close> returns \<open>None\<close>, the record is
  gone from the store, the address is back in the free list, and the available set is
  as before.
\<close>

theorem create_vm_failure_cleanup:
  assumes room: "int (length (vm_pool s)) < max_vms cfg"
    and addr: "ip_pool s = a # rest" "a \<noteq> []"
    and fail: "clone_vm env (next_vm_id s) \<noteq> Returns True \<or>
       \<not> (\<exists>i<nat (vm_ready_timeout cfg div 5).
             get_vm_status env (next_vm_id s) i = Returns (Some ''running'')) \<or>
       (\<forall>c. c \<noteq> [] \<longrightarrow>
          create_connection env (''dynamic-vm-'' @ str_int (next_vm_id s)) a \<noteq> Returns (Some c))"
  shows "fst (create_vm cfg env s) = None \<and>
     vm_pool (snd (create_vm cfg env s)) = AList.delete (next_vm_id s) (vm_pool s) \<and>
     map_of (vm_pool (snd (create_vm cfg env s))) (next_vm_id s) = None \<and>
     a \<in> set (ip_pool (snd (create_vm cfg env s))) \<and>
     ip_pool (snd (create_vm cfg env s)) = (if a \<in> set rest then rest else rest @ [a]) \<and>
     available_vms (snd (create_vm cfg env s)) = available_vms s"
proof -
  from fail obtain e where
    "provision cfg env (next_vm_id s) (''dynamic-vm-'' @ str_int (next_vm_id s)) a = Inl e"
    using provision_fails_iff[of cfg env "next_vm_id s" "''dynamic-vm-'' @ str_int (next_vm_id s)" a]
    by blast
  from create_vm_on_failure[OF room addr this] show ?thesis
    by (simp add: AList.delete_conv')
qed

theorem create_vm_failure_cleanup_witness:
  "int (length (vm_pool fresh_pool)) < max_vms lab_config \<and>
   ip_pool fresh_pool = ''10.0.0.10'' # [''10.0.0.11'', ''10.0.0.12''] \<and>
   clone_vm clone_fails (next_vm_id fresh_pool) \<noteq> Returns True \<and>
   fst (create_vm lab_config clone_fails fresh_pool) = None \<and>
   vm_pool (snd (create_vm lab_config clone_fails fresh_pool)) = [] \<and>
   ip_pool (snd (create_vm lab_config clone_fails fresh_pool)) =
     [''10.0.0.11'', ''10.0.0.12'', ''10.0.0.10'']"
proof -
  have h: "int (length (vm_pool fresh_pool)) < max_vms lab_config"
    "ip_pool fresh_pool = ''10.0.0.10'' # [''10.0.0.11'', ''10.0.0.12'']"
    "''10.0.0.10'' \<noteq> []"
    "clone_vm clone_fails (next_vm_id fresh_pool) \<noteq> Returns True"
    by (simp_all add: lab)
  have v: "vm_pool fresh_pool = []" by (simp add: lab)
  show ?thesis
    using h v create_vm_failure_cleanup [OF h(1) h(2) h(3) disjI1, OF h(4)]
    by simp
qed

text \<open>
  Claim C5, as the code has it. With the store already at \<^verbatim>\<open>max_vms\<close>, \<^verbatim>\<open>create_vm\<close> returns
  \<open>None\<close> and changes nothing. With room in the store and no free address it returns
  \<open>None\<close> and leaves the store, the available set and the free list as they were, and
  the id counter has advanced by one: the id is taken before the address is asked for.
\<close>

theorem create_vm_fail_fast:
  "(max_vms cfg \<le> int (length (vm_pool s)) \<longrightarrow> create_vm cfg env s = (None, s)) \<and>
   (int (length (vm_pool s)) < max_vms cfg \<and> ip_pool s = [] \<longrightarrow>
      create_vm cfg env s = (None, s\<lparr>next_vm_id := next_vm_id s + 1\<rparr>))"
  by (simp add: create_vm_def get_next_ip_def Let_def)

theorem create_vm_fail_fast_witness:
  "max_vms lab_config \<le> int (length (vm_pool full_pool)) \<and>
   create_vm lab_config ok_remote full_pool = (None, full_pool) \<and>
   int (length (vm_pool last_address_pool)) < max_vms last_address_config \<and>
   ip_pool last_address_pool = [] \<and>
   create_vm last_address_config ok_remote last_address_pool =
     (None, last_address_pool\<lparr>next_vm_id := 102\<rparr>)"
proof -
  have h: "max_vms lab_config \<le> int (length (vm_pool full_pool))"
    "int (length (vm_pool last_address_pool)) < max_vms last_address_config"
    "ip_pool last_address_pool = []"
    by (simp_all add: lab)
  have n: "next_vm_id last_address_pool + 1 = 102" by (simp add: lab)
  show ?thesis
    using h n create_vm_fail_fast [of lab_config full_pool ok_remote]
      create_vm_fail_fast [of last_address_config last_address_pool ok_remote]
    by simp
qed

text \<open>
  The claim as stated fails on the id counter: with base address 10.0.0.255 the pool
  holds one address; after startup has used it, \<^verbatim>\<open>create_vm\<close> finds room in the store
  and no address, returns \<open>None\<close>, and the counter has moved from 101 to 102.
\<close>

theorem create_vm_id_counter_counterexample:
  "init last_address_config =
     Inr \<lparr>vm_pool = [], available_vms = [], next_vm_id = 100, ip_pool = [''10.0.0.255'']\<rparr> \<and>
   ensure_base_load last_address_config ok_remote
     \<lparr>vm_pool = [], available_vms = [], next_vm_id = 100, ip_pool = [''10.0.0.255'']\<rparr> =
     last_address_pool \<and>
   ip_pool last_address_pool = [] \<and>
   fst (create_vm last_address_config ok_remote last_address_pool) = None \<and>
   next_vm_id (snd (create_vm last_address_config ok_remote last_address_pool)) = 102 \<and>
   next_vm_id last_address_pool = 101"
  by (simp add: evals lab)

section \<open>The capacity scenario\<close>

lemma five_assigned_eq: "five_assigned = \<lparr>vm_pool = [(100, dynamic_vm 100 ''100'' ''10.0.0.10'' 2),
       (101, dynamic_vm 101 ''101'' ''10.0.0.11'' 2), (102, dynamic_vm 102 ''102'' ''10.0.0.12'' 1)],
     available_vms = [102], next_vm_id = 103, ip_pool = []\<rparr>"
  by (simp add: five_assigned_def evals lab)

text \<open>
  Claim C7, as the code has it. In \<open>lab_config\<close> with every remote call succeeding,
  startup leaves one running record with address 10.0.0.10; after five assignments
  the store holds the three instances 100, 101, 102; the sixth assignment succeeds
  (instance 102 gets its second user, which fills the pool); the seventh returns \<open>None\<close>.
\<close>

theorem capacity_scenario:
  "init lab_config = Inr fresh_pool \<and>
   ensure_base_load lab_config ok_remote fresh_pool = base_pool \<and>
   map (\<lambda>(k, r). (k, status r, ip r, user_count r)) (vm_pool base_pool) =
     [(100, RUNNING, ''10.0.0.10'', 0)] \<and>
   map fst (vm_pool five_assigned) = [100, 101, 102] \<and>
   assign_vm_to_user lab_config ok_remote five_assigned =
     Inr (Some (dynamic_vm 102 ''102'' ''10.0.0.12'' 2), full_pool) \<and>
   assign_vm_to_user lab_config ok_remote full_pool = Inr (None, full_pool)"
  by (simp add: five_assigned_eq evals lab full_pool_def)

text \<open>The claim as stated fails at the sixth call: it returns instance 102.\<close>

theorem sixth_assignment_counterexample:
  "assign_vm_to_user lab_config ok_remote five_assigned =
     Inr (Some (dynamic_vm 102 ''102'' ''10.0.0.12'' 2), full_pool) \<and>
   Some (dynamic_vm 102 ''102'' ''10.0.0.12'' 2) \<noteq> None"
  by (simp add: five_assigned_eq evals lab)

section \<open>Lists of records\<close>

lemma list_all_update:
  "P (k, v) \<Longrightarrow> list_all P al \<Longrightarrow> list_all P (AList.update k v al)"
  by (induction al) auto

lemma list_all_delete: "list_all P al \<Longrightarrow> list_all P (AList.delete k al)"
  by (induction al) auto

lemma list_all_map_entry:
  "list_all P al \<Longrightarrow> (\<And>r. P (k, r) \<Longrightarrow> P (k, f r)) \<Longrightarrow> list_all P (AList.map_entry k f al)"
  by (induction al) auto

lemma list_all_lookup: "list_all P al \<Longrightarrow> map_of al k = Some v \<Longrightarrow> P (k, v)"
  by (auto simp: list_all_iff dest: map_of_SomeD)

section \<open>Occupancy\<close>

lemma vm_pool_add_available [simp]: "vm_pool (add_available v s) = vm_pool s"
  by (simp add: add_available_def)

lemma vm_pool_discard_available [simp]: "vm_pool (discard_available v s) = vm_pool s"
  by (simp add: discard_available_def)

lemma vm_pool_release_ip [simp]: "vm_pool (release_ip a s) = vm_pool s"
  by (simp add: release_ip_def)

lemma vm_pool_reorder_available [simp]: "vm_pool (reorder_available xs s) = vm_pool s"
  by (simp add: reorder_available_def)

lemma count_ok_reorder_available [simp]:
  "count_ok cfg (reorder_available xs s) = count_ok cfg s"
  by (simp add: count_ok_def)

lemma count_ok_add_available [simp]: "count_ok cfg (add_available v s) = count_ok cfg s"
  by (simp add: count_ok_def)

lemma count_ok_discard_available [simp]: "count_ok cfg (discard_available v s) = count_ok cfg s"
  by (simp add: count_ok_def)

lemma find_best_source:
  "find_best cfg pool av b m = Inr (Some v) \<Longrightarrow>
     b = Some v \<or>
     (\<exists>k\<in>set av. map_of pool k = Some v \<and> status v = RUNNING \<and>
        user_count v < users_per_vm cfg)"
  by (induction av arbitrary: b m) (auto split: option.splits if_splits)

lemma create_vm_result:
  "create_vm cfg env s = (Some v, s') \<Longrightarrow>
     user_count v = 0 \<and> id' v = next_vm_id s \<and> status v = RUNNING \<and>
     map_of (vm_pool s') (id' v) = Some v"
  by (auto simp: create_vm_def get_next_ip_def Let_def AList.update_conv'
      split: if_splits list.splits sum.splits)

lemma count_ok_create_vm:
  assumes "0 \<le> users_per_vm cfg" and "count_ok cfg s"
  shows "count_ok cfg (snd (create_vm cfg env s))"
  using assms
  by (auto simp: create_vm_def get_next_ip_def Let_def count_ok_def
      intro!: list_all_update list_all_delete split: list.splits sum.splits)

lemma count_ok_take_seat:
  assumes "count_ok cfg s" and "0 \<le> user_count b" and "user_count b < users_per_vm cfg"
    and "take_seat cfg b s = (r, s')"
  shows "count_ok cfg s'"
  using assms
  by (auto simp: take_seat_def Let_def count_ok_def intro!: list_all_update split: if_splits)

lemma count_ok_assign:
  assumes up: "1 \<le> users_per_vm cfg" and ok: "count_ok cfg s"
    and a: "assign_vm_to_user cfg env s = Inr (r, s')"
  shows "count_ok cfg s'"
proof (cases "find_best cfg (vm_pool s) (available_vms s) None None")
  case (Inl e)
  with a show ?thesis by (simp add: assign_vm_to_user_def)
next
  case (Inr best)
  show ?thesis
  proof (cases best)
    case (Some b)
    with Inr find_best_source[of cfg "vm_pool s" "available_vms s" None None b]
    obtain k where k: "map_of (vm_pool s) k = Some b" "user_count b < users_per_vm cfg"
      by auto
    from ok k(1) have "0 \<le> user_count b"
      using list_all_lookup[of _ "vm_pool s" k b] by (fastforce simp: count_ok_def)
    moreover from a Inr Some have "take_seat cfg b s = (r, s')"
      by (simp add: assign_vm_to_user_def)
    ultimately show ?thesis using count_ok_take_seat[OF ok _ k(2)] by blast
  next
    case None
    obtain res s1 where c: "create_vm cfg env s = (res, s1)" by (cases "create_vm cfg env s")
    have ok1: "count_ok cfg s1"
      using count_ok_create_vm[of cfg s env] up ok c by simp
    show ?thesis
    proof (cases res)
      case None
      with a Inr \<open>best = None\<close> c ok1 show ?thesis by (simp add: assign_vm_to_user_def)
    next
      case (Some b)
      with c create_vm_result[of cfg env s b s1] have "user_count b = 0" by simp
      moreover from a Inr \<open>best = None\<close> c Some have "take_seat cfg b s1 = (r, s')"
        by (simp add: assign_vm_to_user_def)
      ultimately show ?thesis using count_ok_take_seat[OF ok1, of b r s'] up by simp
    qed
  qed
qed

lemma count_ok_release:
  assumes "count_ok cfg s"
  shows "count_ok cfg (release_vm_from_user cfg k s)"
proof (cases "map_of (vm_pool s) k")
  case None
  with assms show ?thesis by (simp add: release_vm_from_user_def)
next
  case (Some r)
  with assms have "0 \<le> user_count r \<and> user_count r \<le> users_per_vm cfg"
    using list_all_lookup[of _ "vm_pool s" k r] by (fastforce simp: count_ok_def)
  with assms Some show ?thesis
    by (auto simp: release_vm_from_user_def Let_def count_ok_def intro!: list_all_update)
qed

lemma count_ok_check_one: "count_ok cfg s \<Longrightarrow> count_ok cfg (check_one env k s)"
  by (auto simp: check_one_def count_ok_def intro!: list_all_map_entry split: reply.splits)

lemma count_ok_check_vm_health: "count_ok cfg s \<Longrightarrow> count_ok cfg (check_vm_health env s)"
proof -
  have "count_ok cfg t \<Longrightarrow> count_ok cfg (fold (check_one env) ks t)" for ks t
    by (induction ks arbitrary: t) (simp_all add: count_ok_check_one)
  then show "count_ok cfg s \<Longrightarrow> count_ok cfg (check_vm_health env s)"
    by (simp add: check_vm_health_def)
qed

lemma count_ok_apply_op:
  assumes "1 \<le> users_per_vm cfg" and "count_ok cfg s"
  shows "count_ok cfg (apply_op cfg op s)"
proof (cases op)
  case (Assign env)
  with assms count_ok_assign[of cfg s env] show ?thesis
    by (auto split: sum.splits)
next
  case (Release k)
  with assms show ?thesis by (simp add: count_ok_release)
next
  case (Health env)
  with assms show ?thesis by (simp add: count_ok_check_vm_health)
next
  case (Scale env)
  with assms count_ok_create_vm[of cfg s env] show ?thesis
    by (simp add: scale_pool_based_on_load_def Let_def)
next
  case (Create env)
  with assms count_ok_create_vm[of cfg s env] show ?thesis by simp
next
  case (Reorder xs)
  with assms show ?thesis by simp
qed

lemma count_ok_run:
  "1 \<le> users_per_vm cfg \<Longrightarrow> count_ok cfg s \<Longrightarrow> count_ok cfg (run cfg ops s)"
  unfolding run_def by (induction ops arbitrary: s) (simp_all add: count_ok_apply_op)

lemma count_ok_register:
  "0 \<le> users_per_vm cfg \<Longrightarrow> count_ok cfg s \<Longrightarrow> count_ok cfg (register_existing_vm env k s)"
  by (auto simp: register_existing_vm_def Let_def count_ok_def intro!: list_all_update
      split: reply.splits)

lemma count_ok_create_times:
  "0 \<le> users_per_vm cfg \<Longrightarrow> count_ok cfg s \<Longrightarrow> count_ok cfg (create_times cfg env n s)"
  by (induction n arbitrary: s) (simp_all add: count_ok_create_vm)

lemma count_ok_ensure_base_load:
  assumes up: "0 \<le> users_per_vm cfg" and ok: "count_ok cfg s"
  shows "count_ok cfg (ensure_base_load cfg env s)"
proof -
  have "count_ok cfg t \<Longrightarrow>
      count_ok cfg (fold (\<lambda>vm t. if vmid vm \<noteq> template_vm_id cfg
                                 then register_existing_vm env (vmid vm) t else t) vms t)"
    for vms :: "vm_entry list" and t
    by (induction vms arbitrary: t) (simp_all add: count_ok_register up)
  with up ok show ?thesis
    by (simp add: ensure_base_load_def Let_def count_ok_create_times split: reply.splits)
qed

lemma count_ok_init: "init cfg = Inr s0 \<Longrightarrow> count_ok cfg s0"
  by (auto simp: init_def count_ok_def split: sum.splits)

lemma take_seat_lookup:
  "take_seat cfg b s = (Some v, s') \<Longrightarrow>
     map_of (vm_pool s') (id' v) = Some v \<and> user_count v = user_count b + 1"
  by (auto simp: take_seat_def Let_def AList.update_conv' split: if_splits)

lemma assign_lookup:
  "assign_vm_to_user cfg env s = Inr (Some v, s') \<Longrightarrow> map_of (vm_pool s') (id' v) = Some v"
  by (auto simp: assign_vm_to_user_def take_seat_def Let_def AList.update_conv'
      split: sum.splits option.splits prod.splits if_splits)

lemma release_lookup:
  "map_of (vm_pool s) k = Some r \<Longrightarrow>
     map_of (vm_pool (release_vm_from_user cfg k s)) k =
       Some (if 0 < user_count r then r\<lparr>user_count := user_count r - 1\<rparr> else r)"
  by (simp add: release_vm_from_user_def Let_def AList.update_conv')

text \<open>
  Claim C1. With \<^verbatim>\<open>users_per_vm\<close> at least 1, the occupancy of every record is between 0
  and \<^verbatim>\<open>users_per_vm\<close> in every state that a run of operations reaches, from startup or
  from any state in which it holds; the runs contain assignments and releases with any
  ids, the available set visited in any order (and health passes, scaling passes and
  direct provisioning besides). After an
  assignment that leaves an instance with one user, two releases of that instance
  leave its occupancy at 0.
\<close>

theorem occupancy_within_bounds:
  assumes "1 \<le> users_per_vm cfg"
  shows "(init cfg = Inr s0 \<longrightarrow> count_ok cfg (run cfg ops (ensure_base_load cfg env0 s0))) \<and>
     (count_ok cfg s \<longrightarrow> count_ok cfg (run cfg ops s)) \<and>
     (assign_vm_to_user cfg env s = Inr (Some v, s1) \<and> user_count v = 1 \<longrightarrow>
        map_of (vm_pool (release_vm_from_user cfg (id' v)
                          (release_vm_from_user cfg (id' v) s1))) (id' v) =
          Some (v\<lparr>user_count := 0\<rparr>))"
proof (intro conjI impI)
  assume "init cfg = Inr s0"
  then show "count_ok cfg (run cfg ops (ensure_base_load cfg env0 s0))"
    using assms by (simp add: count_ok_run count_ok_ensure_base_load count_ok_init)
next
  assume "count_ok cfg s"
  then show "count_ok cfg (run cfg ops s)" using assms by (simp add: count_ok_run)
next
  assume a: "assign_vm_to_user cfg env s = Inr (Some v, s1) \<and> user_count v = 1"
  then have "map_of (vm_pool s1) (id' v) = Some v" using assign_lookup by blast
  from release_lookup[OF this, of cfg] a
  have "map_of (vm_pool (release_vm_from_user cfg (id' v) s1)) (id' v) =
      Some (v\<lparr>user_count := 0\<rparr>)" by simp
  from release_lookup[OF this, of cfg]
  show "map_of (vm_pool (release_vm_from_user cfg (id' v)
                          (release_vm_from_user cfg (id' v) s1))) (id' v) =
          Some (v\<lparr>user_count := 0\<rparr>)" by simp
qed

theorem occupancy_within_bounds_witness:
  "1 \<le> users_per_vm lab_config \<and> init lab_config = Inr fresh_pool \<and>
   count_ok lab_config base_pool \<and>
   assign_vm_to_user lab_config ok_remote base_pool =
     Inr (Some (dynamic_vm 100 ''100'' ''10.0.0.10'' 1),
          base_pool\<lparr>vm_pool := [(100, dynamic_vm 100 ''100'' ''10.0.0.10'' 1)]\<rparr>) \<and>
   count_ok lab_config
     (run lab_config
        [Assign ok_remote, Reorder [100], Release 100, Release 100, Release 7]
        (ensure_base_load lab_config ok_remote fresh_pool)) \<and>
   count_ok lab_config (run lab_config [Release 100, Assign ok_remote] base_pool) \<and>
   map_of (vm_pool (release_vm_from_user lab_config 100 (release_vm_from_user lab_config 100
       (base_pool\<lparr>vm_pool := [(100, dynamic_vm 100 ''100'' ''10.0.0.10'' 1)]\<rparr>)))) 100 =
     Some (dynamic_vm 100 ''100'' ''10.0.0.10'' 0)"
proof -
  have h: "1 \<le> users_per_vm lab_config" "init lab_config = Inr fresh_pool"
    "count_ok lab_config base_pool"
    "assign_vm_to_user lab_config ok_remote base_pool =
       Inr (Some (dynamic_vm 100 ''100'' ''10.0.0.10'' 1),
            base_pool\<lparr>vm_pool := [(100, dynamic_vm 100 ''100'' ''10.0.0.10'' 1)]\<rparr>)"
    by (simp_all add: evals lab count_ok_def)
  have v: "user_count (dynamic_vm 100 ''100'' ''10.0.0.10'' 1) = 1"
    "id' (dynamic_vm 100 ''100'' ''10.0.0.10'' 1) = 100"
    "(dynamic_vm 100 ''100'' ''10.0.0.10'' 1)\<lparr>user_count := 0\<rparr> =
       dynamic_vm 100 ''100'' ''10.0.0.10'' 0"
    by (simp_all add: dynamic_vm_def)
  show ?thesis
    using h v
      occupancy_within_bounds [OF h(1), of fresh_pool
        "[Assign ok_remote, Reorder [100], Release 100, Release 100, Release 7]" ok_remote]
      occupancy_within_bounds [OF h(1), of _ "[Release 100, Assign ok_remote]" _ base_pool
        ok_remote "dynamic_vm 100 ''100'' ''10.0.0.10'' 1"
        "base_pool\<lparr>vm_pool := [(100, dynamic_vm 100 ''100'' ''10.0.0.10'' 1)]\<rparr>"]
    by simp
qed

section \<open>The size of the store\<close>

lemma length_update_le: "length (AList.update k v al) \<le> Suc (length al)"
  by (induction al) auto

lemma length_update_present:
  "map_of al k = Some r \<Longrightarrow> length (AList.update k v al) = length al"
  by (induction al) (auto split: if_splits)

lemma length_map_entry [simp]: "length (AList.map_entry k f al) = length al"
  by (induction al) auto

lemma pool_keyed_add_available [simp]: "pool_keyed (add_available v s) = pool_keyed s"
  by (simp add: pool_keyed_def)

lemma pool_keyed_discard_available [simp]: "pool_keyed (discard_available v s) = pool_keyed s"
  by (simp add: pool_keyed_def)

lemma pool_keyed_reorder_available [simp]:
  "pool_keyed (reorder_available xs s) = pool_keyed s"
  by (simp add: pool_keyed_def)

lemma pool_keyed_create_vm: "pool_keyed s \<Longrightarrow> pool_keyed (snd (create_vm cfg env s))"
  by (auto simp: create_vm_def get_next_ip_def Let_def pool_keyed_def
      intro!: list_all_update list_all_delete split: list.splits sum.splits)

lemma pool_keyed_take_seat:
  "pool_keyed s \<Longrightarrow> take_seat cfg b s = (r, s') \<Longrightarrow> pool_keyed s'"
  by (auto simp: take_seat_def Let_def pool_keyed_def intro!: list_all_update split: if_splits)

lemma pool_keyed_assign:
  "pool_keyed s \<Longrightarrow> assign_vm_to_user cfg env s = Inr (r, s') \<Longrightarrow> pool_keyed s'"
  using pool_keyed_create_vm[of s cfg env]
  by (auto simp: assign_vm_to_user_def dest: pool_keyed_take_seat
      split: sum.splits option.splits prod.splits)

lemma pool_keyed_release: "pool_keyed s \<Longrightarrow> pool_keyed (release_vm_from_user cfg k s)"
proof (cases "map_of (vm_pool s) k")
  case None
  assume "pool_keyed s"
  with None show ?thesis by (simp add: release_vm_from_user_def)
next
  case (Some r)
  assume k: "pool_keyed s"
  with Some have "id' r = k"
    using list_all_lookup[of _ "vm_pool s" k r] by (fastforce simp: pool_keyed_def)
  with k Some show ?thesis
    by (auto simp: release_vm_from_user_def Let_def pool_keyed_def intro!: list_all_update)
qed

lemma pool_keyed_check_one: "pool_keyed s \<Longrightarrow> pool_keyed (check_one env k s)"
  by (auto simp: check_one_def pool_keyed_def intro!: list_all_map_entry split: reply.splits)

lemma pool_keyed_check_vm_health: "pool_keyed s \<Longrightarrow> pool_keyed (check_vm_health env s)"
proof -
  have "pool_keyed t \<Longrightarrow> pool_keyed (fold (check_one env) ks t)" for ks t
    by (induction ks arbitrary: t) (simp_all add: pool_keyed_check_one)
  then show "pool_keyed s \<Longrightarrow> pool_keyed (check_vm_health env s)"
    by (simp add: check_vm_health_def)
qed

lemma pool_keyed_apply_op: "pool_keyed s \<Longrightarrow> pool_keyed (apply_op cfg op s)"
proof (cases op)
  case (Assign env)
  assume "pool_keyed s"
  with Assign pool_keyed_assign[of s cfg env] show ?thesis by (auto split: sum.splits)
next
  case (Scale env)
  assume "pool_keyed s"
  with Scale pool_keyed_create_vm[of s cfg env] show ?thesis
    by (simp add: scale_pool_based_on_load_def Let_def)
qed (simp_all add: pool_keyed_release pool_keyed_check_vm_health pool_keyed_create_vm)

lemma pool_keyed_run: "pool_keyed s \<Longrightarrow> pool_keyed (run cfg ops s)"
  unfolding run_def by (induction ops arbitrary: s) (simp_all add: pool_keyed_apply_op)

lemma pool_keyed_register: "pool_keyed s \<Longrightarrow> pool_keyed (register_existing_vm env k s)"
  by (auto simp: register_existing_vm_def Let_def pool_keyed_def intro!: list_all_update
      split: reply.splits)

lemma pool_keyed_create_times: "pool_keyed s \<Longrightarrow> pool_keyed (create_times cfg env n s)"
  by (induction n arbitrary: s) (simp_all add: pool_keyed_create_vm)

lemma pool_keyed_ensure_base_load:
  assumes "pool_keyed s"
  shows "pool_keyed (ensure_base_load cfg env s)"
proof -
  have "pool_keyed t \<Longrightarrow>
      pool_keyed (fold (\<lambda>vm t. if vmid vm \<noteq> template_vm_id cfg
                                 then register_existing_vm env (vmid vm) t else t) vms t)"
    for vms :: "vm_entry list" and t
    by (induction vms arbitrary: t) (simp_all add: pool_keyed_register)
  with assms show ?thesis
    by (simp add: ensure_base_load_def Let_def pool_keyed_create_times split: reply.splits)
qed

lemma pool_keyed_init: "init cfg = Inr s0 \<Longrightarrow> pool_keyed s0"
  by (auto simp: init_def pool_keyed_def split: sum.splits)

text \<open>The size of the store under each operation, against a bound \<open>B\<close> above max_vms.\<close>

lemma size_create_vm:
  assumes "max_vms cfg \<le> B" and "int (length (vm_pool s)) \<le> B"
  shows "int (length (vm_pool (snd (create_vm cfg env s)))) \<le> B"
proof (cases "max_vms cfg \<le> int (length (vm_pool s))")
  case True
  with assms show ?thesis by (simp add: create_vm_def)
next
  case False
  have u: "int (length (AList.update k v (vm_pool s))) \<le> B" for k v
    using length_update_le[of k v "vm_pool s"] False assms(1) by linarith
  have d: "int (length (AList.delete k (vm_pool s))) \<le> B" for k
    using AList.length_delete_le[of k "vm_pool s"] assms(2) by linarith
  show ?thesis
    using False assms(2) u d
    by (auto simp: create_vm_def get_next_ip_def Let_def AList.delete_update_same
        split: list.splits sum.splits)
qed

lemma size_take_seat:
  "map_of (vm_pool s) (id' b) = Some b' \<Longrightarrow> take_seat cfg b s = (r, s') \<Longrightarrow>
     length (vm_pool s') = length (vm_pool s)"
  by (auto simp: take_seat_def Let_def length_update_present split: if_splits)

lemma size_assign:
  assumes k: "pool_keyed s" and B: "max_vms cfg \<le> B" "int (length (vm_pool s)) \<le> B"
    and a: "assign_vm_to_user cfg env s = Inr (r, s')"
  shows "int (length (vm_pool s')) \<le> B"
proof (cases "find_best cfg (vm_pool s) (available_vms s) None None")
  case (Inl e)
  with a show ?thesis by (simp add: assign_vm_to_user_def)
next
  case (Inr best)
  show ?thesis
  proof (cases best)
    case (Some b)
    with Inr find_best_source[of cfg "vm_pool s" "available_vms s" None None b]
    obtain j where j: "map_of (vm_pool s) j = Some b" by auto
    with k have "id' b = j"
      using list_all_lookup[of _ "vm_pool s" j b] by (fastforce simp: pool_keyed_def)
    with j have "map_of (vm_pool s) (id' b) = Some b" by simp
    moreover from a Inr Some have "take_seat cfg b s = (r, s')"
      by (simp add: assign_vm_to_user_def)
    ultimately show ?thesis using size_take_seat B(2) by fastforce
  next
    case None
    obtain res s1 where c: "create_vm cfg env s = (res, s1)" by (cases "create_vm cfg env s")
    have s1: "int (length (vm_pool s1)) \<le> B"
      using size_create_vm[OF B, of env] c by simp
    show ?thesis
    proof (cases res)
      case None
      with a Inr \<open>best = None\<close> c s1 show ?thesis by (simp add: assign_vm_to_user_def)
    next
      case (Some b)
      with c create_vm_result[of cfg env s b s1]
      have "map_of (vm_pool s1) (id' b) = Some b" by blast
      moreover from a Inr \<open>best = None\<close> c Some have "take_seat cfg b s1 = (r, s')"
        by (simp add: assign_vm_to_user_def)
      ultimately show ?thesis using size_take_seat s1 by fastforce
    qed
  qed
qed

lemma size_release [simp]:
  "length (vm_pool (release_vm_from_user cfg k s)) = length (vm_pool s)"
  by (auto simp: release_vm_from_user_def Let_def length_update_present split: option.splits)

lemma size_check_one [simp]: "length (vm_pool (check_one env k s)) = length (vm_pool s)"
  by (simp add: check_one_def split: reply.splits)

lemma size_check_vm_health [simp]:
  "length (vm_pool (check_vm_health env s)) = length (vm_pool s)"
proof -
  have "length (vm_pool (fold (check_one env) ks t)) = length (vm_pool t)" for ks t
    by (induction ks arbitrary: t) simp_all
  then show ?thesis by (simp add: check_vm_health_def)
qed

lemma size_apply_op:
  assumes "pool_keyed s" and "max_vms cfg \<le> B" and "int (length (vm_pool s)) \<le> B"
  shows "int (length (vm_pool (apply_op cfg op s))) \<le> B"
proof (cases op)
  case (Assign env)
  with assms size_assign[of s cfg B env] show ?thesis by (auto split: sum.splits)
next
  case (Scale env)
  with assms size_create_vm[of cfg B s env] show ?thesis
    by (simp add: scale_pool_based_on_load_def Let_def)
next
  case (Create env)
  with assms size_create_vm[of cfg B s env] show ?thesis by simp
qed (use assms in simp_all)

lemma size_run:
  "pool_keyed s \<Longrightarrow> max_vms cfg \<le> B \<Longrightarrow> int (length (vm_pool s)) \<le> B \<Longrightarrow>
     int (length (vm_pool (run cfg ops s))) \<le> B"
  unfolding run_def
  by (induction ops arbitrary: s) (simp_all add: size_apply_op pool_keyed_apply_op)

lemma size_create_times:
  "max_vms cfg \<le> B \<Longrightarrow> int (length (vm_pool s)) \<le> B \<Longrightarrow>
     int (length (vm_pool (create_times cfg env n s))) \<le> B"
  by (induction n arbitrary: s) (simp_all add: size_create_vm)

lemma size_register:
  "length (vm_pool (register_existing_vm env k s)) \<le> Suc (length (vm_pool s))"
  by (auto simp: register_existing_vm_def Let_def length_update_le split: reply.splits)

lemma size_register_fold:
  fixes vms :: "vm_entry list"
  shows "length (vm_pool (fold (\<lambda>vm t. if vmid vm \<noteq> template_vm_id cfg
                                 then register_existing_vm env (vmid vm) t else t) vms s))
     \<le> length (vm_pool s) + length (filter (\<lambda>vm. vmid vm \<noteq> template_vm_id cfg) vms)"
proof (induction vms arbitrary: s)
  case Nil
  show ?case by simp
next
  case (Cons vm vms)
  show ?case
    using Cons.IH[of "register_existing_vm env (vmid vm) s"] Cons.IH[of s]
      size_register[of env "vmid vm" s]
    by auto
qed

lemma size_ensure_base_load:
  assumes "list_vms env = Returns vms" and "vm_pool s = []"
  shows "int (length (vm_pool (ensure_base_load cfg env s))) \<le>
     max (max_vms cfg)
       (int (length (filter (\<lambda>vm. entry_status vm = Some ''running'' \<and>
                                 vmid vm \<noteq> template_vm_id cfg) vms)))"
proof -
  let ?B = "max (max_vms cfg)
       (int (length (filter (\<lambda>vm. entry_status vm = Some ''running'' \<and>
                                 vmid vm \<noteq> template_vm_id cfg) vms)))"
  let ?s1 = "fold (\<lambda>vm t. if vmid vm \<noteq> template_vm_id cfg
                                 then register_existing_vm env (vmid vm) t else t)
               (filter (\<lambda>vm. entry_status vm = Some ''running'') vms) s"
  have "int (length (vm_pool ?s1)) \<le> ?B"
    using size_register_fold[of cfg env "filter (\<lambda>vm. entry_status vm = Some ''running'') vms" s]
      assms(2)
    by (simp add: conj_commute)
  then have "int (length (vm_pool (create_times cfg env n ?s1))) \<le> ?B" for n
    by (intro size_create_times) simp_all
  with assms(1) show ?thesis by (simp add: ensure_base_load_def Let_def)
qed

text \<open>
  The guard of \<^verbatim>\<open>create_vm\<close> keeps the store at \<^verbatim>\<open>max_vms\<close>: from a state with the records
  under their own ids, no run of operations lets the store grow beyond the larger of
  \<^verbatim>\<open>max_vms\<close> and its size at the start of the run. What startup adds on top of that is
  bounded only by the number of running instances that the listing reports apart from
  the template.
\<close>

lemma store_size_after_startup:
  "(pool_keyed s \<longrightarrow>
      int (length (vm_pool (run cfg ops s))) \<le> max (max_vms cfg) (int (length (vm_pool s)))) \<and>
   (init cfg = Inr s0 \<and> list_vms env0 = Returns vms \<longrightarrow>
      int (length (vm_pool (run cfg ops (ensure_base_load cfg env0 s0)))) \<le>
        max (max_vms cfg)
          (int (length (filter (\<lambda>vm. entry_status vm = Some ''running'' \<and>
                                    vmid vm \<noteq> template_vm_id cfg) vms))))"
proof (intro conjI impI)
  assume "pool_keyed s"
  then show "int (length (vm_pool (run cfg ops s))) \<le> max (max_vms cfg) (int (length (vm_pool s)))"
    by (intro size_run) simp_all
next
  assume a: "init cfg = Inr s0 \<and> list_vms env0 = Returns vms"
  then have e: "vm_pool s0 = []" by (auto simp: init_def split: sum.splits)
  from a have "pool_keyed (ensure_base_load cfg env0 s0)"
    using pool_keyed_ensure_base_load pool_keyed_init by blast
  then show "int (length (vm_pool (run cfg ops (ensure_base_load cfg env0 s0)))) \<le>
        max (max_vms cfg)
          (int (length (filter (\<lambda>vm. entry_status vm = Some ''running'' \<and>
                                    vmid vm \<noteq> template_vm_id cfg) vms)))"
    using size_ensure_base_load[of env0 vms s0 cfg] a e by (intro size_run) simp_all
qed

text \<open>
  Claim C3 does not hold of the code. \<^verbatim>\<open>_register_existing_vm\<close> inserts its record
  without looking at the size of the store, where \<^verbatim>\<open>create_vm\<close> and
  \<^verbatim>\<open>_scale_pool_based_on_load\<close> compare it with \<^verbatim>\<open>max_vms\<close>. With four instances running
  before the manager starts and \<^verbatim>\<open>max_vms = 3\<close>, \<^verbatim>\<open>ensure_base_load\<close> leaves the four
  records 201 to 204 in the store.
\<close>

theorem startup_registration_exceeds_max_vms:
  "init lab_config = Inr fresh_pool \<and>
   map fst (vm_pool (ensure_base_load lab_config crowded_remote fresh_pool)) =
     [201, 202, 203, 204] \<and>
   length (vm_pool (ensure_base_load lab_config crowded_remote fresh_pool)) = 4 \<and>
   max_vms lab_config = 3"
  by (simp add: evals lab)

section \<open>Assignment\<close>





lemma occupancy_lookup: "map_of (vm_pool s) k = Some r \<Longrightarrow> occupancy s k = user_count r"
  by (simp add: occupancy_def)




section \<open>The health pass\<close>

lemma keys_map_entry [simp]: "map fst (AList.map_entry k f al) = map fst al"
  by (induction al) auto

lemma health_update_idem: "health_update env k (health_update env k r) = health_update env k r"
  by (simp add: health_update_def split: reply.splits)

lemma check_one_lookup:
  "map_of (vm_pool (check_one env k s)) j =
     (if j = k then map_option (health_update env k) (map_of (vm_pool s) k)
      else map_of (vm_pool s) j)"
  by (auto simp: check_one_def health_update_def AList.map_of_map_entry
      split: reply.splits option.splits)

lemma check_one_keys [simp]: "map fst (vm_pool (check_one env k s)) = map fst (vm_pool s)"
  by (simp add: check_one_def split: reply.splits)

lemma check_one_available:
  "available_vms (check_one env k s) =
     filter (\<lambda>j. \<not> (j = k \<and> (\<exists>st. get_vm_status env k 0 = Returns st \<and> st \<noteq> Some ''running'')))
       (available_vms s)"
  by (auto simp: check_one_def discard_available_def removeAll_filter_not_eq
      split: reply.splits intro: filter_cong)

lemma check_one_rest [simp]:
  "next_vm_id (check_one env k s) = next_vm_id s"
  by (simp add: check_one_def discard_available_def split: reply.splits)

lemma health_fold_lookup:
  "map_of (vm_pool (fold (check_one env) ks s)) j =
     (if j \<in> set ks then map_option (health_update env j) (map_of (vm_pool s) j)
      else map_of (vm_pool s) j)"
proof (induction ks arbitrary: s)
  case Nil
  show ?case by simp
next
  case (Cons k ks)
  show ?case
    by (cases "map_of (vm_pool s) j")
       (auto simp: Cons.IH check_one_lookup health_update_idem)
qed

lemma health_fold_keys:
  "map fst (vm_pool (fold (check_one env) ks s)) = map fst (vm_pool s)"
  by (induction ks arbitrary: s) simp_all

lemma health_fold_available:
  "available_vms (fold (check_one env) ks s) =
     filter (\<lambda>j. \<not> (j \<in> set ks \<and>
                     (\<exists>st. get_vm_status env j 0 = Returns st \<and> st \<noteq> Some ''running'')))
       (available_vms s)"
proof (induction ks arbitrary: s)
  case Nil
  show ?case by simp
next
  case (Cons k ks)
  show ?case
    by (auto simp: Cons.IH check_one_available intro: filter_cong)
qed

lemma health_fold_rest:
  "next_vm_id (fold (check_one env) ks s) = next_vm_id s"
  by (induction ks arbitrary: s) simp_all

lemma health_update_fields:
  "user_count (health_update env j q) = user_count q \<and> id' (health_update env j q) = id' q \<and>
   name (health_update env j q) = name q \<and> ip (health_update env j q) = ip q \<and>
   guacamole_connection_id (health_update env j q) = guacamole_connection_id q \<and>
   created_at (health_update env j q) = created_at q \<and>
   (get_vm_status env j 0 = Raises \<longrightarrow> health_update env j q = q) \<and>
   (get_vm_status env j 0 = Returns (Some ''running'') \<longrightarrow>
      health_update env j q = q\<lparr>status := RUNNING, last_health_check := Some (time env j)\<rparr>)"
  by (simp add: health_update_def split: reply.splits)

lemma two_vm_pool_eq:
  "run lab_config [Assign ok_remote, Assign ok_remote, Assign ok_remote] base_pool = two_vm_pool"
  by (simp add: evals lab two_vm_pool_def)

text \<open>
  Claim C8, as the code has it. For a tracked instance whose status query returns a
  state other than running, the health pass leaves the record in the store with
  \<open>status = STOPPED\<close> and every other field as it was, and the id is not in the available
  set afterwards. The pass adds no id to the available set, keeps the keys of the
  store, the id counter and the free list, and changes no record's occupancy, id,
  name, address, connection id or creation time. The other records are not left
  untouched: one whose query reports running becomes \<open>RUNNING\<close> with a new
  \<open>last_health_check\<close>; one whose query raises stays as it was.
\<close>

theorem health_pass_stops_instance:
  assumes rec: "map_of (vm_pool s) k = Some r"
    and reply: "get_vm_status env k 0 = Returns st" and down: "st \<noteq> Some ''running''"
  shows "map_of (vm_pool (check_vm_health env s)) k = Some (r\<lparr>status := STOPPED\<rparr>) \<and>
     k \<notin> set (available_vms (check_vm_health env s)) \<and>
     set (available_vms (check_vm_health env s)) \<subseteq> set (available_vms s) \<and>
     map fst (vm_pool (check_vm_health env s)) = map fst (vm_pool s) \<and>
     next_vm_id (check_vm_health env s) = next_vm_id s \<and>
     ip_pool (check_vm_health env s) = ip_pool s \<and>
     (\<forall>j q. map_of (vm_pool s) j = Some q \<longrightarrow>
        (\<exists>q'. map_of (vm_pool (check_vm_health env s)) j = Some q' \<and>
           user_count q' = user_count q \<and> id' q' = id' q \<and> name q' = name q \<and>
           ip q' = ip q \<and> guacamole_connection_id q' = guacamole_connection_id q \<and>
           created_at q' = created_at q \<and>
           (get_vm_status env j 0 = Raises \<longrightarrow> q' = q) \<and>
           (get_vm_status env j 0 = Returns (Some ''running'') \<longrightarrow>
              q' = q\<lparr>status := RUNNING, last_health_check := Some (time env j)\<rparr>)))"
proof -
  have key: "j \<in> set (map fst (vm_pool s))" if "map_of (vm_pool s) j = Some q" for j q
    using that by (metis map_of_eq_None_iff option.distinct(1) set_map)
  have look: "map_of (vm_pool (check_vm_health env s)) j = Some (health_update env j q)"
    if "map_of (vm_pool s) j = Some q" for j q
    using that key[OF that] by (simp add: check_vm_health_def health_fold_lookup)
  have "health_update env k r = r\<lparr>status := STOPPED\<rparr>"
    using reply down by (simp add: health_update_def)
  with look[OF rec] have 1: "map_of (vm_pool (check_vm_health env s)) k = Some (r\<lparr>status := STOPPED\<rparr>)"
    by simp
  have 2: "k \<notin> set (available_vms (check_vm_health env s))"
    using key[OF rec] reply down by (simp add: check_vm_health_def health_fold_available)
  have 3: "set (available_vms (check_vm_health env s)) \<subseteq> set (available_vms s)"
    by (simp add: check_vm_health_def health_fold_available)
  have 4: "map fst (vm_pool (check_vm_health env s)) = map fst (vm_pool s)"
    by (simp add: check_vm_health_def health_fold_keys)
  have 5: "next_vm_id (check_vm_health env s) = next_vm_id s"
    by (simp add: check_vm_health_def health_fold_rest)
  have 6: "\<forall>j q. map_of (vm_pool s) j = Some q \<longrightarrow>
        (\<exists>q'. map_of (vm_pool (check_vm_health env s)) j = Some q' \<and>
           user_count q' = user_count q \<and> id' q' = id' q \<and> name q' = name q \<and>
           ip q' = ip q \<and> guacamole_connection_id q' = guacamole_connection_id q \<and>
           created_at q' = created_at q \<and>
           (get_vm_status env j 0 = Raises \<longrightarrow> q' = q) \<and>
           (get_vm_status env j 0 = Returns (Some ''running'') \<longrightarrow>
              q' = q\<lparr>status := RUNNING, last_health_check := Some (time env j)\<rparr>))"
  proof (intro allI impI)
    fix j q assume "map_of (vm_pool s) j = Some q"
    from look[OF this] health_update_fields[of env j q]
    show "\<exists>q'. map_of (vm_pool (check_vm_health env s)) j = Some q' \<and>
           user_count q' = user_count q \<and> id' q' = id' q \<and> name q' = name q \<and>
           ip q' = ip q \<and> guacamole_connection_id q' = guacamole_connection_id q \<and>
           created_at q' = created_at q \<and>
           (get_vm_status env j 0 = Raises \<longrightarrow> q' = q) \<and>
           (get_vm_status env j 0 = Returns (Some ''running'') \<longrightarrow>
              q' = q\<lparr>status := RUNNING, last_health_check := Some (time env j)\<rparr>)"
      by (intro exI[of _ "health_update env j q"]) simp
  qed
  from 1 2 3 4 5 6 show ?thesis by simp
qed

theorem health_pass_stops_instance_witness:
  "map_of (vm_pool two_vm_pool) 100 = Some (dynamic_vm 100 ''100'' ''10.0.0.10'' 2) \<and>
   get_vm_status vm100_down 100 0 = Returns (Some ''stopped'') \<and>
   Some ''stopped'' \<noteq> Some ''running'' \<and>
   map_of (vm_pool (check_vm_health vm100_down two_vm_pool)) 100 =
     Some ((dynamic_vm 100 ''100'' ''10.0.0.10'' 2)\<lparr>status := STOPPED\<rparr>) \<and>
   100 \<notin> set (available_vms (check_vm_health vm100_down two_vm_pool)) \<and>
   map fst (vm_pool (check_vm_health vm100_down two_vm_pool)) = [100, 101]"
proof -
  have h: "map_of (vm_pool two_vm_pool) 100 = Some (dynamic_vm 100 ''100'' ''10.0.0.10'' 2)"
    "get_vm_status vm100_down 100 0 = Returns (Some ''stopped'')"
    "Some ''stopped'' \<noteq> Some ''running''"
    by (simp_all add: two_vm_pool_def lab)
  have k: "map fst (vm_pool two_vm_pool) = [100, 101]" by (simp add: two_vm_pool_def)
  show ?thesis
    using h k health_pass_stops_instance [OF h] by simp
qed

text \<open>
  The claim as stated fails on the other records: while instance 100 is found stopped,
  instance 101 is found running and its \<open>last_health_check\<close> changes.
\<close>

theorem health_pass_other_record_counterexample:
  "run lab_config [Assign ok_remote, Assign ok_remote, Assign ok_remote] base_pool = two_vm_pool \<and>
   get_vm_status vm100_down 100 0 = Returns (Some ''stopped'') \<and>
   map_of (vm_pool two_vm_pool) 101 = Some (dynamic_vm 101 ''101'' ''10.0.0.11'' 1) \<and>
   map_of (vm_pool (check_vm_health vm100_down two_vm_pool)) 101 =
     Some ((dynamic_vm 101 ''101'' ''10.0.0.11'' 1)\<lparr>last_health_check := Some 5\<rparr>) \<and>
   (dynamic_vm 101 ''101'' ''10.0.0.11'' 1)\<lparr>last_health_check := Some 5\<rparr> \<noteq>
     dynamic_vm 101 ''101'' ''10.0.0.11'' 1"
  by (simp add: two_vm_pool_eq) (simp add: evals lab two_vm_pool_def)

section \<open>The available set after a release\<close>

text \<open>
  Claim C2 does not hold of the code. When \<^verbatim>\<open>release_vm_from_user\<close> has taken a user off
  an instance, it adds the id to the available set if the new occupancy is below
  \<^verbatim>\<open>users_per_vm\<close>, and never looks at the status. After startup, one assignment, and a
  health pass that finds instance 100 stopped (and takes it out of the available set),
  the release of instance 100 takes its one user off and puts the id back while the
  record is \<open>STOPPED\<close>.
\<close>

theorem release_readds_stopped_instance:
  "available_vms (run lab_config [Assign ok_remote, Health vm100_down] base_pool) = [] \<and>
   available_vms (run lab_config [Assign ok_remote, Health vm100_down, Release 100] base_pool) =
     [100] \<and>
   map (\<lambda>(k, r). (k, status r, user_count r))
     (vm_pool (run lab_config [Assign ok_remote, Health vm100_down, Release 100] base_pool)) =
     [(100, STOPPED, 0)] \<and>
   \<not> eligible lab_config
       (run lab_config [Assign ok_remote, Health vm100_down, Release 100] base_pool) 100"
  by (simp add: evals lab eligible_def)

end
